theory Spec2Isabelle
  imports Complex_Main
begin

section \<open>Counter Engine (counter-animation.js)\<close>

text \<open>
  JavaScript numbers are IEEE 754 doubles. They are modelled by exact rationals: the
  model agrees with the program wherever every intermediate value is a double (integers
  below \<open>2^53\<close>, dyadic fractions such as \<open>0.5\<close>, \<open>0.75\<close>, \<open>2.5\<close>, \<open>31.5\<close>), and says
  nothing about rounding, \<open>NaN\<close> or the infinities. Strings are lists of characters.
\<close>

type_synonym number = rat

subsection \<open>Characters and host string functions\<close>

definition is_digit :: "char \<Rightarrow> bool" where
  "is_digit c = (c \<in> set ''0123456789'')"

definition is_alpha :: "char \<Rightarrow> bool" where
  "is_alpha c =
     (c \<in> set ''ABCDEFGHIJKLMNOPQRSTUVWXYZ'' \<or> c \<in> set ''abcdefghijklmnopqrstuvwxyz'')"

definition digit_val :: "char \<Rightarrow> nat" where
  "digit_val c = of_char c - 48"

definition digits_val :: "string \<Rightarrow> nat" where
  "digits_val ds = foldl (\<lambda>n c. 10 * n + digit_val c) 0 ds"

text \<open>
  The host's \<open>parseFloat\<close>, on the strings \<open>parseValue\<close> hands it: digits and dots only
  (everything else was stripped). It reads the longest prefix of the form
  digits, optionally a dot and digits, with at least one digit; \<open>None\<close> is \<open>NaN\<close>.
\<close>

definition parseFloat :: "string \<Rightarrow> number option" where
  "parseFloat s =
     (let ip = takeWhile is_digit s;
          rest = dropWhile is_digit s;
          fp = (case rest of [] \<Rightarrow> [] | c # r \<Rightarrow> if c = CHR ''.'' then takeWhile is_digit r else [])
      in if ip = [] \<and> fp = [] then None
         else Some (of_nat (digits_val ip) + of_nat (digits_val fp) / 10 ^ length fp))"

text \<open>The decimal digits of a natural number, most significant first.\<close>

fun dec_digits :: "nat \<Rightarrow> string" where
  "dec_digits n =
     (if n < 10 then [char_of (48 + n)]
      else dec_digits (n div 10) @ [char_of (48 + n mod 10)])"

declare dec_digits.simps [simp del]

text \<open>Commas between groups of three digits, counted from the right.\<close>

fun group3 :: "string \<Rightarrow> string" where
  "group3 ds =
     (if length ds \<le> 3 then ds
      else group3 (take (length ds - 3) ds) @ '','' @ drop (length ds - 3) ds)"

declare group3.simps [simp del]

text \<open>\<open>Number.prototype.toLocaleString('en-US')\<close> on an integer.\<close>

definition toLocaleString :: "int \<Rightarrow> string" where
  "toLocaleString n =
     (if n < 0 then ''-'' @ group3 (dec_digits (nat (- n))) else group3 (dec_digits (nat n)))"

subsection \<open>Easing functions\<close>

definition linear :: "number \<Rightarrow> number" where
  "linear t = t"

definition easeInQuad :: "number \<Rightarrow> number" where
  "easeInQuad t = t * t"

definition easeOutQuad :: "number \<Rightarrow> number" where
  "easeOutQuad t = t * (2 - t)"

definition easeInOutQuad :: "number \<Rightarrow> number" where
  "easeInOutQuad t = (if t < 1 / 2 then 2 * t * t else - 1 + (4 - 2 * t) * t)"

definition easeInCubic :: "number \<Rightarrow> number" where
  "easeInCubic t = t * t * t"

text \<open>\<open>(--t) * t * t + 1\<close>: the decrement happens first, every \<open>t\<close> reads the new value.\<close>

definition easeOutCubic :: "number \<Rightarrow> number" where
  "easeOutCubic t = (let t' = t - 1 in t' * t' * t' + 1)"

definition easeInOutCubic :: "number \<Rightarrow> number" where
  "easeInOutCubic t =
     (if t < 1 / 2 then 4 * t * t * t else (t - 1) * (2 * t - 2) * (2 * t - 2) + 1)"

text \<open>The table \<open>easingFunctions\<close>, in the order of the source.\<close>

definition easingFunctions :: "(string \<times> (number \<Rightarrow> number)) list" where
  "easingFunctions =
     [(''linear'', linear),
      (''easeInQuad'', easeInQuad),
      (''easeOutQuad'', easeOutQuad),
      (''easeInOutQuad'', easeInOutQuad),
      (''easeInCubic'', easeInCubic),
      (''easeOutCubic'', easeOutCubic),
      (''easeInOutCubic'', easeInOutCubic)]"

text \<open>\<open>easingFunctions[name] || easingFunctions.easeOutQuad\<close>.\<close>

definition easingFunc :: "string \<Rightarrow> number \<Rightarrow> number" where
  "easingFunc name = (case map_of easingFunctions name of Some f \<Rightarrow> f | None \<Rightarrow> easeOutQuad)"

subsection \<open>CounterAnimation\<close>

record counter_options =
  duration :: number
  easingFunction :: string

text \<open>\<open>CONFIG\<close> of counter-animation.js.\<close>

definition counter_CONFIG :: counter_options where
  "counter_CONFIG = \<lparr>duration = 2000, easingFunction = ''easeOutQuad''\<rparr>"

text \<open>
  A \<open>CounterAnimation\<close> object together with the content of its element:
  \<open>innerHTML\<close> is what the element shows, \<open>completed\<close> lists the details of the
  \<open>counterComplete\<close> events dispatched so far, \<open>frameRequested\<close> says whether a call to
  \<open>requestAnimationFrame\<close> is outstanding.
\<close>

record counter =
  c_options :: counter_options
  targetValue :: number
  hasPlus :: bool
  hasSuffix :: string
  dataset_original :: string
  currentValue :: number
  startTime :: "number option"
  frameRequested :: bool
  hasAnimated :: bool
  innerHTML :: string
  completed :: "number list"

text \<open>\<open>str.replace(/[^0-9.]/g, '')\<close>, then \<open>parseFloat(cleaned) || 0\<close>.\<close>

definition parseValue :: "string \<Rightarrow> number" where
  "parseValue str =
     (let cleaned = filter (\<lambda>c. is_digit c \<or> c = CHR ''.'') str
      in case parseFloat cleaned of None \<Rightarrow> 0 | Some v \<Rightarrow> v)"

text \<open>\<open>str.match(/[A-Za-z]+$/)\<close>: the letters the string ends with, or the empty string.\<close>

definition extractSuffix :: "string \<Rightarrow> string" where
  "extractSuffix str = rev (takeWhile is_alpha (rev str))"

definition formatNumber :: "number \<Rightarrow> string" where
  "formatNumber num = toLocaleString \<lfloor>num\<rfloor>"

definition stat_plus :: string where
  \<open>stat_plus = ''<span class="stat-plus">+</span>''\<close>

definition updateDisplay :: "number \<Rightarrow> counter \<Rightarrow> counter" where
  "updateDisplay v c =
     c\<lparr>innerHTML :=
         formatNumber v @ hasSuffix c @ (if hasPlus c \<and> targetValue c \<le> v then stat_plus else [])\<rparr>"

definition finish :: "counter \<Rightarrow> counter" where
  "finish c =
     (let c1 = updateDisplay (targetValue c) c
      in c1\<lparr>hasAnimated := True, completed := completed c1 @ [targetValue c1]\<rparr>)"

text \<open>The constructor, from the text content of the element and the options.\<close>

definition CounterAnimation :: "string \<Rightarrow> counter_options \<Rightarrow> counter" where
  "CounterAnimation textContent opts =
     \<lparr>c_options = opts,
      targetValue = parseValue textContent,
      hasPlus = (CHR ''+'' \<in> set textContent),
      hasSuffix = extractSuffix textContent,
      dataset_original = textContent,
      currentValue = 0,
      startTime = None,
      frameRequested = False,
      hasAnimated = False,
      innerHTML = textContent,
      completed = []\<rparr>"

text \<open>
  \<open>if (!this.startTime) this.startTime = timestamp\<close>: the test holds for \<open>null\<close> and
  for a start time of \<open>0\<close>.
\<close>

definition frameStart :: "number \<Rightarrow> counter \<Rightarrow> number" where
  "frameStart timestamp c =
     (case startTime c of None \<Rightarrow> timestamp | Some s \<Rightarrow> if s = 0 then timestamp else s)"

text \<open>
  One animation frame. With a duration of \<open>0\<close> the quotient is \<open>NaN\<close> or infinite,
  which the model does not cover: the result is \<open>None\<close> there.
\<close>

definition animate :: "number \<Rightarrow> counter \<Rightarrow> counter option" where
  "animate timestamp c =
     (let st = frameStart timestamp c;
          elapsed = timestamp - st
      in if duration (c_options c) = 0 then None
         else
           let progress = min (elapsed / duration (c_options c)) 1;
               easedProgress = easingFunc (easingFunction (c_options c)) progress;
               c1 = c\<lparr>startTime := Some st, currentValue := targetValue c * easedProgress\<rparr>;
               c2 = updateDisplay (currentValue c1) c1
           in if progress < 1 then Some (c2\<lparr>frameRequested := True\<rparr>)
              else Some (finish (c2\<lparr>frameRequested := False\<rparr>)))"

definition start :: "counter \<Rightarrow> counter" where
  "start c =
     (if hasAnimated c then c
      else c\<lparr>currentValue := 0, startTime := None, frameRequested := True\<rparr>)"

text \<open>
  The frames the scheduler delivers, with their timestamps, as long as one is requested.
\<close>

fun frames :: "number list \<Rightarrow> counter \<Rightarrow> counter option" where
  "frames [] c = Some c"
| "frames (t # ts) c =
     (if frameRequested c
      then (case animate t c of None \<Rightarrow> None | Some c' \<Rightarrow> frames ts c')
      else Some c)"


text \<open>The text the element shows once the animation has finished.\<close>

definition finalText :: "counter \<Rightarrow> string" where
  "finalText c = formatNumber (targetValue c) @ hasSuffix c @ (if hasPlus c then stat_plus else [])"

section \<open>The host: elements, errors, the visibility observer\<close>

text \<open>
  An element is an opaque reference. An uncaught exception is a value: every method
  returns the exception it threw, if any, together with the state it left behind.
  \<open>ReferenceError\<close> is what reading the undeclared name \<open>IntersectionObserver\<close> throws,
  \<open>TypeError\<close> what calling a method of \<open>null\<close> throws.
\<close>

type_synonym element = nat

datatype js_error = ReferenceError | TypeError

text \<open>\<open>Array.prototype.forEach\<close>, \<open>NodeList.forEach\<close>: an exception ends the loop.\<close>

fun forEach :: "('a \<Rightarrow> 's \<Rightarrow> js_error option \<times> 's) \<Rightarrow> 'a list \<Rightarrow> 's \<Rightarrow> js_error option \<times> 's" where
  "forEach f [] s = (None, s)"
| "forEach f (x # xs) s =
     (case f x s of (None, s') \<Rightarrow> forEach f xs s' | (Some e, s') \<Rightarrow> (Some e, s'))"

text \<open>
  An \<open>IntersectionObserver\<close> is the list of its observation targets:
  \<open>observe\<close> adds a target once, \<open>unobserve\<close> removes it, \<open>disconnect\<close> removes all.
\<close>

definition observe :: "element list \<Rightarrow> element \<Rightarrow> element list" where
  "observe ts e = (if e \<in> set ts then ts else ts @ [e])"

definition unobserve :: "element list \<Rightarrow> element \<Rightarrow> element list" where
  "unobserve ts e = removeAll e ts"

definition disconnect :: "element list \<Rightarrow> element list" where
  "disconnect ts = []"

section \<open>CounterObserver (counter-animation.js)\<close>

text \<open>
  The page as the counter script sees it: whether the host has \<open>IntersectionObserver\<close>,
  and the elements matching \<open>.stat-number, [data-counter]\<close> with their text content.
\<close>

record counter_page =
  cp_hasIntersectionObserver :: bool
  counterElements :: "(element \<times> string) list"

record counterObserver =
  co_options :: counter_options
  counters :: "(element \<times> counter) list"
  co_observer :: "element list option"

definition discoverCounter :: "element \<times> string \<Rightarrow> counterObserver \<Rightarrow> js_error option \<times> counterObserver" where
  "discoverCounter et co =
     (if fst et \<in> fst ` set (counters co) then (None, co)
      else
        let co1 = co\<lparr>counters := counters co @ [(fst et, CounterAnimation (snd et) (co_options co))]\<rparr>
        in case co_observer co1 of
             None \<Rightarrow> (Some TypeError, co1)
           | Some ts \<Rightarrow> (None, co1\<lparr>co_observer := Some (observe ts (fst et))\<rparr>))"

definition discoverCounters :: "counter_page \<Rightarrow> counterObserver \<Rightarrow> js_error option \<times> counterObserver" where
  "discoverCounters page co = forEach discoverCounter (counterElements page) co"

definition CounterObserver_init :: "counter_page \<Rightarrow> counterObserver \<Rightarrow> js_error option \<times> counterObserver" where
  "CounterObserver_init page co =
     (if \<not> cp_hasIntersectionObserver page then (Some ReferenceError, co)
      else discoverCounters page (co\<lparr>co_observer := Some []\<rparr>))"

definition CounterObserver :: "counter_page \<Rightarrow> counter_options \<Rightarrow> js_error option \<times> counterObserver" where
  "CounterObserver page opts =
     CounterObserver_init page \<lparr>co_options = opts, counters = [], co_observer = None\<rparr>"

section \<open>Reveal Engine (scroll-reveal.js)\<close>

subsection \<open>Configuration and presets\<close>

record options =
  threshold :: number
  rootMargin :: string
  animationDuration :: int
  staggerDelay :: int
  distance :: string
  easing :: string
  once :: bool
  mobile :: bool

definition CONFIG :: options where
  "CONFIG =
     \<lparr>threshold = 15 / 100,
      rootMargin = ''0px 0px -50px 0px'',
      animationDuration = 600,
      staggerDelay = 100,
      distance = ''50px'',
      easing = ''cubic-bezier(0.4, 0, 0.2, 1)'',
      once = True,
      mobile = True\<rparr>"

text \<open>The inline style of an element, on the four properties the engine writes.\<close>

datatype property = Opacity | Transform | Transition | WillChange

type_synonym style = "property \<Rightarrow> string option"

text \<open>\<open>Object.assign(element.style, {...})\<close>: the properties are written in order.\<close>

definition assign :: "style \<Rightarrow> (property \<times> string) list \<Rightarrow> style" where
  "assign st kvs = foldl (\<lambda>m kv. m(fst kv \<mapsto> snd kv)) st kvs"

record animation =
  initial :: "(property \<times> string) list"
  animate_set :: "(property \<times> string) list"

definition fade_up :: animation where
  "fade_up =
     \<lparr>initial = [(Opacity, ''0''), (Transform, ''translateY(50px)'')],
      animate_set = [(Opacity, ''1''), (Transform, ''translateY(0)'')]\<rparr>"

definition ANIMATIONS :: "(string \<times> animation) list" where
  "ANIMATIONS =
     [(''fade-up'', fade_up),
      (''fade-down'',
        \<lparr>initial = [(Opacity, ''0''), (Transform, ''translateY(-50px)'')],
         animate_set = [(Opacity, ''1''), (Transform, ''translateY(0)'')]\<rparr>),
      (''fade-left'',
        \<lparr>initial = [(Opacity, ''0''), (Transform, ''translateX(-50px)'')],
         animate_set = [(Opacity, ''1''), (Transform, ''translateX(0)'')]\<rparr>),
      (''fade-right'',
        \<lparr>initial = [(Opacity, ''0''), (Transform, ''translateX(50px)'')],
         animate_set = [(Opacity, ''1''), (Transform, ''translateX(0)'')]\<rparr>),
      (''fade'',
        \<lparr>initial = [(Opacity, ''0'')],
         animate_set = [(Opacity, ''1'')]\<rparr>),
      (''zoom-in'',
        \<lparr>initial = [(Opacity, ''0''), (Transform, ''scale(0.9)'')],
         animate_set = [(Opacity, ''1''), (Transform, ''scale(1)'')]\<rparr>),
      (''zoom-out'',
        \<lparr>initial = [(Opacity, ''0''), (Transform, ''scale(1.1)'')],
         animate_set = [(Opacity, ''1''), (Transform, ''scale(1)'')]\<rparr>),
      (''flip-left'',
        \<lparr>initial = [(Opacity, ''0''), (Transform, ''perspective(2500px) rotateY(-100deg)'')],
         animate_set = [(Opacity, ''1''), (Transform, ''perspective(2500px) rotateY(0)'')]\<rparr>),
      (''flip-right'',
        \<lparr>initial = [(Opacity, ''0''), (Transform, ''perspective(2500px) rotateY(100deg)'')],
         animate_set = [(Opacity, ''1''), (Transform, ''perspective(2500px) rotateY(0)'')]\<rparr>)]"

text \<open>
  \<open>ANIMATIONS[animationType] || ANIMATIONS['fade-up']\<close>, for the names that are not
  properties every object inherits.
\<close>

definition lookupAnimation :: "string \<Rightarrow> animation" where
  "lookupAnimation animationType =
     (case map_of ANIMATIONS animationType of Some a \<Rightarrow> a | None \<Rightarrow> fade_up)"

subsection \<open>The state\<close>

text \<open>
  The \<open>data-reveal*\<close> attributes of an element. The host's \<open>parseInt\<close> is not modelled:
  \<open>revealDelay\<close> and \<open>revealDuration\<close> are what it returns on the attribute, \<open>None\<close> for
  \<open>NaN\<close> (also when the attribute is absent).
\<close>

record dataset =
  reveal :: string
  revealDelay :: "int option"
  revealDuration :: "int option"
  revealStagger :: "string option"

text \<open>
  What the constructor finds: the media query, the width of the window, whether the
  host has \<open>IntersectionObserver\<close>, the elements matching \<open>[data-reveal]\<close> in document
  order, their attributes, their inline styles and whether they carry the class
  \<open>revealed\<close>.
\<close>

record page =
  prefersReducedMotion :: bool
  innerWidth :: int
  hasIntersectionObserver :: bool
  marked :: "element list"
  dataset :: "element \<Rightarrow> dataset"
  style0 :: "element \<Rightarrow> style"
  revealedClass0 :: "element \<Rightarrow> bool"

record elementData =
  animation :: animation
  animationType :: string
  delay :: int
  ed_duration :: int
  stagger :: bool
  index :: nat
  revealed :: bool

text \<open>
  A pending \<open>setTimeout\<close>: the delayed reveal of an element, with the \<open>elementData\<close>
  object its closure holds and its delay, or the clean-up of \<open>will-change\<close>.
\<close>

datatype timer = Reveal element nat int | Cleanup element int

text \<open>
  The engine and the part of the host it acts on. \<open>elements\<close> is the \<open>Map\<close>, in insertion
  order; its values are references into \<open>store\<close>, the \<open>elementData\<close> objects, since the
  closures of the timers share them. \<open>observer\<close> is \<open>None\<close> for \<open>null\<close>. \<open>dispatched\<close>
  lists the \<open>revealed\<close> events with their detail, \<open>timers\<close> the pending timeouts.
\<close>

record sr =
  options :: options
  elements :: "(element \<times> nat) list"
  observer :: "element list option"
  reducedMotion :: bool
  isMobile :: bool
  store :: "nat \<Rightarrow> elementData"
  allocated :: nat
  host :: page
  style :: "element \<Rightarrow> style"
  revealedClass :: "element \<Rightarrow> bool"
  timers :: "timer list"
  dispatched :: "(element \<times> string) list"

record entry =
  target :: element
  isIntersecting :: bool

subsection \<open>The methods of ScrollReveal\<close>

definition elements_has :: "sr \<Rightarrow> element \<Rightarrow> bool" where
  "elements_has s e = (e \<in> fst ` set (elements s))"

definition elements_get :: "sr \<Rightarrow> element \<Rightarrow> nat option" where
  "elements_get s e = map_of (elements s) e"

text \<open>\<open>this.elements.set(element, {...})\<close> for an element that is not a key: a new object.\<close>

definition elements_set :: "element \<Rightarrow> elementData \<Rightarrow> sr \<Rightarrow> sr" where
  "elements_set e d s =
     s\<lparr>elements := elements s @ [(e, allocated s)],
       store := (store s)(allocated s := d),
       allocated := Suc (allocated s)\<rparr>"

definition show_int :: "int \<Rightarrow> string" where
  "show_int n = (if n < 0 then ''-'' @ dec_digits (nat (- n)) else dec_digits (nat n))"

definition applyInitialStyles :: "element \<Rightarrow> animation \<Rightarrow> int \<Rightarrow> sr \<Rightarrow> sr" where
  "applyInitialStyles e anim dur s =
     s\<lparr>style := (style s)(e :=
         assign (style s e)
           (initial anim @
            [(Transition, ''all '' @ show_int dur @ ''ms '' @ easing (options s)),
             (WillChange, ''opacity, transform'')]))\<rparr>"

text \<open>The body of the loop of \<open>discoverElements\<close>, for one element and its position.\<close>

definition discoverElement :: "nat \<times> element \<Rightarrow> sr \<Rightarrow> js_error option \<times> sr" where
  "discoverElement ie s =
     (let i = fst ie; e = snd ie in
      if elements_has s e then (None, s)
      else
        let ds = dataset (host s) e;
            animType = (if reveal ds = [] then ''fade-up'' else reveal ds);
            anim = lookupAnimation animType;
            dl = (case revealDelay ds of None \<Rightarrow> 0 | Some n \<Rightarrow> n);
            dur = (case revealDuration ds of None \<Rightarrow> animationDuration (options s)
                   | Some n \<Rightarrow> if n = 0 then animationDuration (options s) else n);
            stg = (revealStagger ds = Some ''true'');
            s1 = elements_set e
                   \<lparr>animation = anim, animationType = animType, delay = dl, ed_duration = dur,
                    stagger = stg, index = i, revealed = False\<rparr> s;
            s2 = applyInitialStyles e anim dur s1
        in case observer s2 of
             None \<Rightarrow> (Some TypeError, s2)
           | Some ts \<Rightarrow> (None, s2\<lparr>observer := Some (observe ts e)\<rparr>))"

definition discoverElements :: "sr \<Rightarrow> js_error option \<times> sr" where
  "discoverElements s = forEach discoverElement (enumerate 0 (marked (host s))) s"

definition init :: "sr \<Rightarrow> js_error option \<times> sr" where
  "init s =
     (if reducedMotion s then (None, s)
      else if isMobile s \<and> \<not> mobile (options s) then (None, s)
      else if \<not> hasIntersectionObserver (host s) then (Some ReferenceError, s)
      else discoverElements (s\<lparr>observer := Some []\<rparr>))"

text \<open>The constructor; \<open>opts\<close> is \<open>{ ...CONFIG, ...options }\<close>.\<close>

definition ScrollReveal :: "page \<Rightarrow> options \<Rightarrow> js_error option \<times> sr" where
  "ScrollReveal pg opts =
     init
       \<lparr>options = opts,
        elements = [],
        observer = None,
        reducedMotion = prefersReducedMotion pg,
        isMobile = (innerWidth pg < 768),
        store = (\<lambda>r. undefined),
        allocated = 0,
        host = pg,
        style = style0 pg,
        revealedClass = revealedClass0 pg,
        timers = [],
        dispatched = []\<rparr>"

definition reveal_element :: "element \<Rightarrow> nat \<Rightarrow> sr \<Rightarrow> sr" where
  "reveal_element e r s =
     s\<lparr>style := (style s)(e := assign (style s e) (animate_set (animation (store s r)))),
       store := (store s)(r := (store s r)\<lparr>revealed := True\<rparr>),
       revealedClass := (revealedClass s)(e := True),
       dispatched := dispatched s @ [(e, animationType (store s r))],
       timers := timers s @ [Cleanup e (ed_duration (store s r))]\<rparr>"

definition hide :: "element \<Rightarrow> nat \<Rightarrow> sr \<Rightarrow> sr" where
  "hide e r s =
     s\<lparr>style := (style s)(e := assign (style s e) (initial (animation (store s r)))),
       store := (store s)(r := (store s r)\<lparr>revealed := False\<rparr>),
       revealedClass := (revealedClass s)(e := False)\<rparr>"

text \<open>The delay of the reveal, with the stagger.\<close>

definition totalDelay :: "options \<Rightarrow> elementData \<Rightarrow> int" where
  "totalDelay opts d =
     (if stagger d then delay d + int (index d) * staggerDelay opts else delay d)"

text \<open>The body of the loop of \<open>handleIntersection\<close>, for one entry.\<close>

definition handleEntry :: "entry \<Rightarrow> sr \<Rightarrow> js_error option \<times> sr" where
  "handleEntry en s =
     (case elements_get s (target en) of
        None \<Rightarrow> (None, s)
      | Some r \<Rightarrow>
          if isIntersecting en \<and> \<not> revealed (store s r) then
            let s1 = s\<lparr>timers := timers s @ [Reveal (target en) r (totalDelay (options s) (store s r))]\<rparr>
            in if once (options s) then
                 (case observer s1 of
                    None \<Rightarrow> (Some TypeError, s1)
                  | Some ts \<Rightarrow> (None, s1\<lparr>observer := Some (unobserve ts (target en))\<rparr>))
               else (None, s1)
          else if \<not> isIntersecting en \<and> \<not> once (options s) \<and> revealed (store s r) then
            (None, hide (target en) r s)
          else (None, s))"

definition handleIntersection :: "entry list \<Rightarrow> sr \<Rightarrow> js_error option \<times> sr" where
  "handleIntersection entries s = forEach handleEntry entries s"

record add_options =
  opt_animation :: "string option"
  opt_duration :: "int option"
  opt_delay :: "int option"
  opt_stagger :: "bool option"

text \<open>\<open>add(element, options)\<close>; \<open>x || d\<close> is \<open>d\<close> for a missing, empty, zero or false \<open>x\<close>.\<close>

definition add :: "element \<Rightarrow> add_options \<Rightarrow> sr \<Rightarrow> js_error option \<times> sr" where
  "add e ao s =
     (if elements_has s e then (None, s)
      else
        let animType = (case opt_animation ao of None \<Rightarrow> ''fade-up''
                        | Some a \<Rightarrow> if a = [] then ''fade-up'' else a);
            anim = lookupAnimation animType;
            dur = (case opt_duration ao of None \<Rightarrow> animationDuration (options s)
                   | Some n \<Rightarrow> if n = 0 then animationDuration (options s) else n);
            s1 = elements_set e
                   \<lparr>animation = anim, animationType = animType,
                    delay = (case opt_delay ao of None \<Rightarrow> 0 | Some n \<Rightarrow> n),
                    ed_duration = dur,
                    stagger = (case opt_stagger ao of None \<Rightarrow> False | Some b \<Rightarrow> b),
                    index = length (elements s), revealed = False\<rparr> s;
            s2 = applyInitialStyles e anim dur s1
        in case observer s2 of
             None \<Rightarrow> (Some TypeError, s2)
           | Some ts \<Rightarrow> (None, s2\<lparr>observer := Some (observe ts e)\<rparr>))"

definition remove :: "element \<Rightarrow> sr \<Rightarrow> js_error option \<times> sr" where
  "remove e s =
     (if elements_has s e then
        (case observer s of
           None \<Rightarrow> (Some TypeError, s)
         | Some ts \<Rightarrow>
             (None, s\<lparr>observer := Some (unobserve ts e),
                      elements := filter (\<lambda>kv. fst kv \<noteq> e) (elements s)\<rparr>))
      else (None, s))"

definition reset :: "sr \<Rightarrow> sr" where
  "reset s = fold (\<lambda>kv. hide (fst kv) (snd kv)) (elements s) s"

definition destroy :: "sr \<Rightarrow> sr" where
  "destroy s =
     (let s1 = (case observer s of None \<Rightarrow> s | Some ts \<Rightarrow> s\<lparr>observer := Some (disconnect ts)\<rparr>)
      in s1\<lparr>elements := []\<rparr>)"

subsection \<open>Runs of an instance\<close>

text \<open>
  What happens to an instance after its construction: the observer delivers a batch
  of entries, a pending timer fires (the one at the given position; the model does not
  order them by their delays), or \<open>reset()\<close> is called.
\<close>

datatype event = Deliver "entry list" | Fire nat | Reset

definition fire :: "nat \<Rightarrow> sr \<Rightarrow> sr" where
  "fire i s =
     (if i < length (timers s) then
        let s1 = s\<lparr>timers := take i (timers s) @ drop (Suc i) (timers s)\<rparr>
        in case timers s ! i of
             Reveal e r d \<Rightarrow> reveal_element e r s1
           | Cleanup e d \<Rightarrow> s1\<lparr>style := (style s1)(e := (style s1 e)(WillChange \<mapsto> ''auto''))\<rparr>
      else s)"

fun exec :: "event \<Rightarrow> sr \<Rightarrow> sr" where
  "exec (Deliver es) s = snd (handleIntersection es s)"
| "exec (Fire i) s = fire i s"
| "exec Reset s = reset s"

definition run :: "event list \<Rightarrow> sr \<Rightarrow> sr" where
  "run evs s = fold exec evs s"

text \<open>Whether the observer of the instance observes the element.\<close>

definition observed :: "sr \<Rightarrow> element \<Rightarrow> bool" where
  "observed s e = (case observer s of None \<Rightarrow> False | Some ts \<Rightarrow> e \<in> set ts)"

text \<open>
  The contract of the observer: a batch reports observed elements only, and a timer
  that fires is a pending one.
\<close>

fun enabled :: "sr \<Rightarrow> event \<Rightarrow> bool" where
  "enabled s (Deliver es) = list_all (\<lambda>en. observed s (target en)) es"
| "enabled s (Fire i) = (i < length (timers s))"
| "enabled s Reset = True"

fun admissible :: "event list \<Rightarrow> sr \<Rightarrow> bool" where
  "admissible [] s = True"
| "admissible (ev # evs) s = (enabled s ev \<and> admissible evs (exec ev s))"

text \<open>A batch is coalesced when it reports no element twice.\<close>

fun coalesced :: "event \<Rightarrow> bool" where
  "coalesced (Deliver es) = distinct (map target es)"
| "coalesced (Fire i) = True"
| "coalesced Reset = True"

text \<open>The delayed reveals pending for an element, and the notifications it has had.\<close>

fun reveals_of :: "element \<Rightarrow> timer \<Rightarrow> bool" where
  "reveals_of e (Reveal e' r d) = (e' = e)"
| "reveals_of e (Cleanup e' d) = False"

definition pending :: "sr \<Rightarrow> element \<Rightarrow> nat" where
  "pending s e = length (filter (reveals_of e) (timers s))"

definition notified :: "sr \<Rightarrow> element \<Rightarrow> nat" where
  "notified s e = count_list (map fst (dispatched s)) e"

subsection \<open>Examples\<close>

text \<open>
  A page wide enough not to be mobile, with \<open>IntersectionObserver\<close>, no reduced-motion
  preference and two marked elements, both
  \<open>data-reveal="zoom-in" data-reveal-delay="200" data-reveal-stagger="true"\<close>.
\<close>

definition example_page :: page where
  "example_page =
     \<lparr>prefersReducedMotion = False,
      innerWidth = 1024,
      hasIntersectionObserver = True,
      marked = [0, 1],
      dataset = (\<lambda>e. \<lparr>reveal = ''zoom-in'', revealDelay = Some 200, revealDuration = None,
                        revealStagger = Some ''true''\<rparr>),
      style0 = (\<lambda>e. Map.empty),
      revealedClass0 = (\<lambda>e. False)\<rparr>"

text \<open>\<open>add(element)\<close> without options.\<close>

definition no_add_options :: add_options where
  "no_add_options =
     \<lparr>opt_animation = None, opt_duration = None, opt_delay = None, opt_stagger = None\<rparr>"

text \<open>A page with one counter and no \<open>IntersectionObserver\<close>.\<close>

definition example_counter_page :: counter_page where
  "example_counter_page = \<lparr>cp_hasIntersectionObserver = False, counterElements = [(0, ''1,234+'')]\<rparr>"


subsection \<open>Auxiliary notions\<close>



text \<open>
  Under the policy \<open>once\<close>: an observed element has neither a pending reveal nor a
  notification, and no element has more than one of the two together.
\<close>

definition once_inv :: "sr \<Rightarrow> bool" where
  "once_inv s \<longleftrightarrow>
     once (options s) \<and>
     (\<forall>e. (observed s e \<longrightarrow> pending s e = 0 \<and> notified s e = 0) \<and>
          pending s e + notified s e \<le> 1)"

text \<open>The handler schedules a reveal for this entry.\<close>

definition schedules :: "sr \<Rightarrow> entry \<Rightarrow> bool" where
  "schedules s en =
     (case elements_get s (target en) of
        None \<Rightarrow> False
      | Some r \<Rightarrow> isIntersecting en \<and> \<not> revealed (store s r))"

text \<open>
  The registry of an instance under the policy \<open>once\<close>: no element and no object is
  registered twice, the closure of every pending reveal holds the element with its own
  registered object, every registered object has one of the presets, and a registered
  element that is observed is neither revealed nor waiting for its reveal.
\<close>

fun timer_registered :: "sr \<Rightarrow> timer \<Rightarrow> bool" where
  "timer_registered s (Reveal e r d) = ((e, r) \<in> set (elements s))"
| "timer_registered s (Cleanup e d) = True"

definition registry_inv :: "sr \<Rightarrow> bool" where
  "registry_inv s \<longleftrightarrow>
     once (options s) \<and>
     distinct (map fst (elements s)) \<and>
     distinct (map snd (elements s)) \<and>
     (\<forall>t\<in>set (timers s). timer_registered s t) \<and>
     (\<forall>er\<in>set (elements s).
        animation (store s (snd er)) \<in> snd ` set ANIMATIONS \<and>
        (observed s (fst er) \<longrightarrow> \<not> revealed (store s (snd er)) \<and> pending s (fst er) = 0))"


text \<open>
  The registry while \<open>discoverElements\<close> runs in the constructor: fresh objects, none
  revealed, and no timer yet.
\<close>

definition fresh_registry :: "options \<Rightarrow> sr \<Rightarrow> bool" where
  "fresh_registry opts s \<longleftrightarrow>
     options s = opts \<and> timers s = [] \<and>
     distinct (map fst (elements s)) \<and> distinct (map snd (elements s)) \<and>
     (\<forall>er\<in>set (elements s).
        snd er < allocated s \<and> animation (store s (snd er)) \<in> snd ` set ANIMATIONS \<and>
        \<not> revealed (store s (snd er)))"



text \<open>
  Whether the element is registered with its flag \<open>revealed\<close> set, and how often the
  flag goes from off to on in the course of a run.
\<close>

definition is_revealed :: "sr \<Rightarrow> element \<Rightarrow> bool" where
  "is_revealed s e = (case elements_get s e of None \<Rightarrow> False | Some r \<Rightarrow> revealed (store s r))"


section \<open>Properties of the Counter Engine\<close>

lemma easingFunc_cases:
  "easingFunc name \<in> {linear, easeInQuad, easeOutQuad, easeInOutQuad, easeInCubic, easeOutCubic, easeInOutCubic}"
  by (simp add: easingFunc_def easingFunctions_def)

lemmas easing_defs = linear_def easeInQuad_def easeOutQuad_def easeInOutQuad_def easeInCubic_def
  easeOutCubic_def easeInOutCubic_def

lemma easingFunc_0: "easingFunc name 0 = 0"
  using easingFunc_cases [of name] by (auto simp: easing_defs)

lemma easingFunc_1: "easingFunc name 1 = 1"
  using easingFunc_cases [of name] by (auto simp: easing_defs)

text \<open>
  Claim C8. Every easing function of the table maps 0 to 0 and 1 to 1, exactly; so does
  the function selected for any name, known or not.
\<close>

theorem easing_boundary:
  "list_all (\<lambda>nf. snd nf 0 = 0 \<and> snd nf 1 = 1) easingFunctions \<and>
   map fst easingFunctions =
     [''linear'', ''easeInQuad'', ''easeOutQuad'', ''easeInOutQuad'', ''easeInCubic'',
      ''easeOutCubic'', ''easeInOutCubic''] \<and>
   easingFunc name 0 = 0 \<and> easingFunc name 1 = 1"
  by (simp add: easingFunctions_def easingFunc_0 easingFunc_1 easing_defs)

lemma animate_static:
  "animate t c = Some c' \<Longrightarrow>
     targetValue c' = targetValue c \<and> hasPlus c' = hasPlus c \<and> hasSuffix c' = hasSuffix c \<and>
     c_options c' = c_options c"
  by (auto simp: animate_def Let_def updateDisplay_def finish_def split: if_splits)

lemma animate_done:
  "animate t c = Some c' \<Longrightarrow> \<not> hasAnimated c \<Longrightarrow> hasAnimated c' \<Longrightarrow>
     innerHTML c' = finalText c \<and> \<not> frameRequested c'"
  by (auto simp: animate_def Let_def updateDisplay_def finish_def finalText_def split: if_splits)

lemma frames_done:
  "frames ts c = Some c' \<Longrightarrow> \<not> hasAnimated c \<Longrightarrow> hasAnimated c' \<Longrightarrow> innerHTML c' = finalText c"
proof (induction ts arbitrary: c)
  case Nil
  then show ?case by simp
next
  case (Cons t ts)
  show ?case
  proof (cases "frameRequested c")
    case False
    with Cons.prems show ?thesis by simp
  next
    case True
    with Cons.prems obtain c1 where a: "animate t c = Some c1" and f: "frames ts c1 = Some c'"
      by (auto split: option.splits)
    show ?thesis
    proof (cases "hasAnimated c1")
      case True
      with a Cons.prems have "innerHTML c1 = finalText c" "\<not> frameRequested c1"
        using animate_done by blast+
      moreover from \<open>\<not> frameRequested c1\<close> f have "c' = c1" by (cases ts) auto
      ultimately show ?thesis by simp
    next
      case False
      with Cons.IH [OF f] Cons.prems have "innerHTML c' = finalText c1" by simp
      also have "finalText c1 = finalText c"
        using animate_static [OF a] by (simp add: finalText_def)
      finally show ?thesis .
    qed
  qed
qed

lemma start_fresh:
  "\<not> hasAnimated c \<Longrightarrow>
     \<not> hasAnimated (start c) \<and> frameRequested (start c) \<and> startTime (start c) = None \<and>
     finalText (start c) = finalText c \<and> c_options (start c) = c_options c"
  by (simp add: start_def finalText_def)

lemma two_frames_complete:
  assumes d: "0 < duration (c_options c)" and t0: "0 < t0" and t1: "t0 + duration (c_options c) \<le> t1"
    and c: "\<not> hasAnimated c" "frameRequested c" "startTime c = None"
  shows "\<exists>c'. frames [t0, t1] c = Some c' \<and> hasAnimated c'"
proof -
  let ?d = "duration (c_options c)"
  have p0: "min ((t0 - t0) / ?d) 1 < 1" by simp
  obtain c1 where a1: "animate t0 c = Some c1" and c1: "frameRequested c1" "startTime c1 = Some t0"
    "c_options c1 = c_options c"
    using d c p0 by (simp add: animate_def frameStart_def Let_def updateDisplay_def)
  have "1 \<le> (t1 - t0) / ?d" using d t1 by (simp add: le_divide_eq)
  then have p1: "\<not> min ((t1 - t0) / ?d) 1 < 1" by simp
  obtain c2 where a2: "animate t1 c1 = Some c2" and c2: "hasAnimated c2"
    using d t0 c1 p1 by (simp add: animate_def frameStart_def Let_def updateDisplay_def finish_def)
  show ?thesis using c a1 c1 a2 c2 by simp
qed

lemma ctor_1234:
  "targetValue (CounterAnimation ''1,234+'' opts) = 1234"
  "hasPlus (CounterAnimation ''1,234+'' opts)"
  "hasSuffix (CounterAnimation ''1,234+'' opts) = []"
  "\<not> hasAnimated (CounterAnimation ''1,234+'' opts)"
  "c_options (CounterAnimation ''1,234+'' opts) = opts"
  by (simp_all add: CounterAnimation_def parseValue_def parseFloat_def is_digit_def digits_val_def
      digit_val_def extractSuffix_def is_alpha_def)

lemma ctor_25M:
  "targetValue (CounterAnimation ''2.5M'' opts) = 5 / 2"
  "\<not> hasPlus (CounterAnimation ''2.5M'' opts)"
  "hasSuffix (CounterAnimation ''2.5M'' opts) = ''M''"
  "\<not> hasAnimated (CounterAnimation ''2.5M'' opts)"
  "c_options (CounterAnimation ''2.5M'' opts) = opts"
  by (simp_all add: CounterAnimation_def parseValue_def parseFloat_def is_digit_def digits_val_def
      digit_val_def extractSuffix_def is_alpha_def)

lemma format_1234: "formatNumber 1234 = ''1,234''"
  by code_simp

lemma format_25: "formatNumber (5 / 2) = ''2''"
  by code_simp

lemma final_1234: "finalText (CounterAnimation ''1,234+'' opts) = ''1,234'' @ stat_plus"
  by (simp add: finalText_def ctor_1234 format_1234)

lemma final_25M: "finalText (CounterAnimation ''2.5M'' opts) = ''2M''"
  by (simp add: finalText_def ctor_25M format_25)

text \<open>
  Claim C3. The counter built from the text \<open>1,234+\<close> has target value 1234, the plus
  adornment and no suffix; the one built from \<open>2.5M\<close> has target value 2.5 and suffix
  \<open>M\<close>. With a positive duration, a first frame and a second one a full duration later
  complete the animation, and whenever the animation has completed the element shows
  \<open>1,234\<close> followed by the plus marker, respectively \<open>2M\<close>.
\<close>

theorem counter_round_trip:
  assumes "0 < duration opts" and "0 < t0" and "t0 + duration opts \<le> t1"
  shows "targetValue (CounterAnimation ''1,234+'' opts) = 1234 \<and>
         hasPlus (CounterAnimation ''1,234+'' opts) \<and>
         hasSuffix (CounterAnimation ''1,234+'' opts) = [] \<and>
         targetValue (CounterAnimation ''2.5M'' opts) = 5 / 2 \<and>
         hasSuffix (CounterAnimation ''2.5M'' opts) = ''M'' \<and>
         (\<exists>c. frames [t0, t1] (start (CounterAnimation ''1,234+'' opts)) = Some c \<and> hasAnimated c) \<and>
         (\<exists>c. frames [t0, t1] (start (CounterAnimation ''2.5M'' opts)) = Some c \<and> hasAnimated c) \<and>
         (\<forall>ts c. frames ts (start (CounterAnimation ''1,234+'' opts)) = Some c \<and> hasAnimated c \<longrightarrow>
            innerHTML c = ''1,234'' @ stat_plus) \<and>
         (\<forall>ts c. frames ts (start (CounterAnimation ''2.5M'' opts)) = Some c \<and> hasAnimated c \<longrightarrow>
            innerHTML c = ''2M'')"
proof -
  let ?a = "CounterAnimation ''1,234+'' opts" and ?b = "CounterAnimation ''2.5M'' opts"
  have sa: "\<not> hasAnimated (start ?a)" "frameRequested (start ?a)" "startTime (start ?a) = None"
    "finalText (start ?a) = finalText ?a" "c_options (start ?a) = opts"
    using start_fresh [of ?a] by (simp_all add: ctor_1234)
  have sb: "\<not> hasAnimated (start ?b)" "frameRequested (start ?b)" "startTime (start ?b) = None"
    "finalText (start ?b) = finalText ?b" "c_options (start ?b) = opts"
    using start_fresh [of ?b] by (simp_all add: ctor_25M)
  have ea: "\<exists>c. frames [t0, t1] (start ?a) = Some c \<and> hasAnimated c"
    using two_frames_complete [of "start ?a" t0 t1] assms sa by simp
  have eb: "\<exists>c. frames [t0, t1] (start ?b) = Some c \<and> hasAnimated c"
    using two_frames_complete [of "start ?b" t0 t1] assms sb by simp
  have fa: "innerHTML c = ''1,234'' @ stat_plus"
    if "frames ts (start ?a) = Some c" "hasAnimated c" for ts c
    using frames_done [OF that(1) sa(1) that(2)] sa(4) by (simp add: final_1234)
  have fb: "innerHTML c = ''2M''"
    if "frames ts (start ?b) = Some c" "hasAnimated c" for ts c
    using frames_done [OF that(1) sb(1) that(2)] sb(4) by (simp add: final_25M)
  show ?thesis
    using ctor_1234(1-3) [of opts] ctor_25M(1,3) [of opts] ea eb fa fb by blast
qed

theorem counter_round_trip_witness:
  "(0::rat) < duration counter_CONFIG \<and> (0::rat) < 100 \<and> 100 + duration counter_CONFIG \<le> 2100 \<and>
   (\<exists>c. frames [100, 2100] (start (CounterAnimation ''1,234+'' counter_CONFIG)) = Some c \<and>
        hasAnimated c \<and> innerHTML c = ''1,234'' @ stat_plus) \<and>
   (\<exists>c. frames [100, 2100] (start (CounterAnimation ''2.5M'' counter_CONFIG)) = Some c \<and>
        hasAnimated c \<and> innerHTML c = ''2M'')"
proof -
  have h: "(0::rat) < duration counter_CONFIG" "(0::rat) < 100" "100 + duration counter_CONFIG \<le> 2100"
    by (simp_all add: counter_CONFIG_def)
  from counter_round_trip [OF h] show ?thesis using h by blast
qed



section \<open>Properties of the Reveal Engine\<close>

lemma ANIMATIONS_initial:
  "a \<in> snd ` set ANIMATIONS \<Longrightarrow>
     distinct (map fst (initial a)) \<and> fst ` set (initial a) \<subseteq> {Opacity, Transform} \<and>
     map_of (initial a) Opacity = Some ''0''"
  by (auto simp: ANIMATIONS_def fade_up_def)

lemma lookupAnimation_in: "lookupAnimation n \<in> snd ` set ANIMATIONS"
proof (cases "map_of ANIMATIONS n")
  case None
  then show ?thesis by (simp add: lookupAnimation_def ANIMATIONS_def)
next
  case (Some a)
  then have "(n, a) \<in> set ANIMATIONS" by (rule map_of_SomeD)
  with Some show ?thesis by (force simp: lookupAnimation_def)
qed

lemma assign_Nil [simp]: "assign st [] = st"
  by (simp add: assign_def)

lemma assign_Cons [simp]: "assign st (kv # kvs) = assign (st(fst kv \<mapsto> snd kv)) kvs"
  by (simp add: assign_def)

lemma assign_append [simp]: "assign st (xs @ ys) = assign (assign st xs) ys"
  by (simp add: assign_def)

lemma assign_other: "k \<notin> fst ` set kvs \<Longrightarrow> assign st kvs k = st k"
  by (induction kvs arbitrary: st) auto

lemma assign_distinct:
  "distinct (map fst kvs) \<Longrightarrow> (k, v) \<in> set kvs \<Longrightarrow> assign st kvs k = Some v"
proof (induction kvs arbitrary: st)
  case Nil
  then show ?case by simp
next
  case (Cons kv kvs)
  show ?case
  proof (cases "kv = (k, v)")
    case True
    with Cons.prems have "k \<notin> fst ` set kvs" by auto
    with True show ?thesis by (simp add: assign_other)
  next
    case False
    with Cons show ?thesis by auto
  qed
qed

text \<open>
  Claim C5. With the reduced-motion preference the constructor returns without an
  exception, registers nothing, creates no observer (so no element is observed),
  schedules nothing, dispatches nothing, and leaves every inline style and class as the
  page had them.
\<close>

theorem reduced_motion_skips_init:
  assumes "prefersReducedMotion pg"
  shows "fst (ScrollReveal pg opts) = None \<and>
         elements (snd (ScrollReveal pg opts)) = [] \<and>
         observer (snd (ScrollReveal pg opts)) = None \<and>
         \<not> observed (snd (ScrollReveal pg opts)) e \<and>
         style (snd (ScrollReveal pg opts)) = style0 pg \<and>
         revealedClass (snd (ScrollReveal pg opts)) = revealedClass0 pg \<and>
         timers (snd (ScrollReveal pg opts)) = [] \<and>
         dispatched (snd (ScrollReveal pg opts)) = []"
  using assms by (simp add: ScrollReveal_def init_def observed_def)

theorem reduced_motion_skips_init_witness:
  "prefersReducedMotion (example_page\<lparr>prefersReducedMotion := True\<rparr>) \<and>
   marked (example_page\<lparr>prefersReducedMotion := True\<rparr>) = [0, 1] \<and>
   fst (ScrollReveal (example_page\<lparr>prefersReducedMotion := True\<rparr>) CONFIG) = None \<and>
   elements (snd (ScrollReveal (example_page\<lparr>prefersReducedMotion := True\<rparr>) CONFIG)) = [] \<and>
   observer (snd (ScrollReveal (example_page\<lparr>prefersReducedMotion := True\<rparr>) CONFIG)) = None \<and>
   style (snd (ScrollReveal (example_page\<lparr>prefersReducedMotion := True\<rparr>) CONFIG)) 0 Opacity = None"
proof -
  have h: "prefersReducedMotion (example_page\<lparr>prefersReducedMotion := True\<rparr>)" by simp
  from reduced_motion_skips_init [OF h, of CONFIG 0] show ?thesis
    by (simp add: example_page_def)
qed

text \<open>
  Claim C1, evaluated on the code. On a host without \<open>IntersectionObserver\<close> (and
  where initialisation is not skipped) the constructor of \<open>ScrollReveal\<close> and the
  constructor of \<open>CounterObserver\<close> both end with a \<open>ReferenceError\<close>; no observer
  exists and nothing is tracked.
\<close>

theorem init_without_IntersectionObserver:
  assumes "\<not> hasIntersectionObserver pg" and "\<not> prefersReducedMotion pg"
    and "\<not> (innerWidth pg < 768 \<and> \<not> mobile opts)"
    and "\<not> cp_hasIntersectionObserver cpg"
  shows "fst (ScrollReveal pg opts) = Some ReferenceError \<and>
         observer (snd (ScrollReveal pg opts)) = None \<and>
         elements (snd (ScrollReveal pg opts)) = [] \<and>
         fst (CounterObserver cpg copts) = Some ReferenceError \<and>
         co_observer (snd (CounterObserver cpg copts)) = None \<and>
         counters (snd (CounterObserver cpg copts)) = []"
  using assms by (simp add: ScrollReveal_def init_def CounterObserver_def CounterObserver_init_def)

theorem init_without_IntersectionObserver_witness:
  "\<not> hasIntersectionObserver (example_page\<lparr>hasIntersectionObserver := False\<rparr>) \<and>
   \<not> prefersReducedMotion (example_page\<lparr>hasIntersectionObserver := False\<rparr>) \<and>
   \<not> (innerWidth (example_page\<lparr>hasIntersectionObserver := False\<rparr>) < 768 \<and> \<not> mobile CONFIG) \<and>
   \<not> cp_hasIntersectionObserver example_counter_page \<and>
   fst (ScrollReveal (example_page\<lparr>hasIntersectionObserver := False\<rparr>) CONFIG) = Some ReferenceError \<and>
   fst (CounterObserver example_counter_page counter_CONFIG) = Some ReferenceError"
proof -
  let ?pg = "example_page\<lparr>hasIntersectionObserver := False\<rparr>"
  have h: "\<not> hasIntersectionObserver ?pg" "\<not> prefersReducedMotion ?pg"
    "\<not> (innerWidth ?pg < 768 \<and> \<not> mobile CONFIG)" "\<not> cp_hasIntersectionObserver example_counter_page"
    by (simp_all add: example_page_def example_counter_page_def)
  from init_without_IntersectionObserver [OF h, of counter_CONFIG] show ?thesis using h by simp
qed

lemma skipped_instance:
  assumes "prefersReducedMotion pg \<or> (innerWidth pg < 768 \<and> \<not> mobile opts)"
  shows "observer (snd (ScrollReveal pg opts)) = None \<and> elements (snd (ScrollReveal pg opts)) = [] \<and>
         fst (ScrollReveal pg opts) = None"
  using assms by (auto simp: ScrollReveal_def init_def)

lemma add_null_observer:
  assumes "observer s = None" and "\<not> elements_has s e"
  shows "fst (add e ao s) = Some TypeError"
    and "elements_has (snd (add e ao s)) e"
    and "observer (snd (add e ao s)) = None"
    and "style (snd (add e ao s)) e Opacity = Some ''0''"
proof -
  define n where "n = (case opt_animation ao of None \<Rightarrow> ''fade-up'' | Some a \<Rightarrow> if a = [] then ''fade-up'' else a)"
  have i: "distinct (map fst (initial (lookupAnimation n)))"
    "fst ` set (initial (lookupAnimation n)) \<subseteq> {Opacity, Transform}"
    "map_of (initial (lookupAnimation n)) Opacity = Some ''0''"
    using ANIMATIONS_initial [OF lookupAnimation_in [of n]] by simp_all
  from i(3) have "(Opacity, ''0'') \<in> set (initial (lookupAnimation n))" by (rule map_of_SomeD)
  with i(1) have o: "assign st (initial (lookupAnimation n)) Opacity = Some ''0''" for st
    by (rule assign_distinct)
  show "fst (add e ao s) = Some TypeError"
    using assms by (simp add: add_def Let_def elements_set_def applyInitialStyles_def)
  show "elements_has (snd (add e ao s)) e"
    using assms by (simp add: add_def Let_def elements_set_def applyInitialStyles_def elements_has_def)
  show "observer (snd (add e ao s)) = None"
    using assms by (simp add: add_def Let_def elements_set_def applyInitialStyles_def)
  show "style (snd (add e ao s)) e Opacity = Some ''0''"
    using assms o by (simp add: add_def Let_def elements_set_def applyInitialStyles_def n_def)
qed

lemma remove_null_observer:
  "observer s = None \<Longrightarrow> elements_has s e \<Longrightarrow> fst (remove e s) = Some TypeError"
  by (simp add: remove_def)

text \<open>
  Claim C2, evaluated on the code. On an instance whose initialisation was skipped,
  \<open>add\<close> ends with a \<open>TypeError\<close> after it has registered the element and hidden it;
  the element is not observed, and \<open>remove\<close> of that element ends with a \<open>TypeError\<close>
  as well.
\<close>

theorem add_on_skipped_instance:
  assumes "prefersReducedMotion pg \<or> (innerWidth pg < 768 \<and> \<not> mobile opts)"
  shows "fst (add e ao (snd (ScrollReveal pg opts))) = Some TypeError \<and>
         elements_has (snd (add e ao (snd (ScrollReveal pg opts)))) e \<and>
         \<not> observed (snd (add e ao (snd (ScrollReveal pg opts)))) e \<and>
         style (snd (add e ao (snd (ScrollReveal pg opts)))) e Opacity = Some ''0'' \<and>
         fst (remove e (snd (add e ao (snd (ScrollReveal pg opts))))) = Some TypeError"
proof -
  let ?s = "snd (ScrollReveal pg opts)"
  have s: "observer ?s = None" "\<not> elements_has ?s e"
    using skipped_instance [OF assms] by (simp_all add: elements_has_def)
  note a = add_null_observer [OF s, of ao]
  from a(3) have "\<not> observed (snd (add e ao ?s)) e" by (simp add: observed_def)
  moreover have "fst (remove e (snd (add e ao ?s))) = Some TypeError"
    using a(2,3) by (simp add: remove_null_observer)
  ultimately show ?thesis using a by simp
qed

theorem add_on_skipped_instance_witness:
  "prefersReducedMotion (example_page\<lparr>prefersReducedMotion := True\<rparr>) \<and>
   fst (ScrollReveal (example_page\<lparr>prefersReducedMotion := True\<rparr>) CONFIG) = None \<and>
   fst (add 7 no_add_options (snd (ScrollReveal (example_page\<lparr>prefersReducedMotion := True\<rparr>) CONFIG)))
     = Some TypeError"
proof -
  let ?pg = "example_page\<lparr>prefersReducedMotion := True\<rparr>"
  have h: "prefersReducedMotion ?pg \<or> (innerWidth ?pg < 768 \<and> \<not> mobile CONFIG)" by simp
  have "fst (ScrollReveal ?pg CONFIG) = None" by (simp add: ScrollReveal_def init_def)
  with add_on_skipped_instance [OF h, of 7 no_add_options] show ?thesis by simp
qed

lemma forEach_invariant:
  assumes "P s" and "\<And>x s. x \<in> set xs \<Longrightarrow> P s \<Longrightarrow> P (snd (f x s))"
  shows "P (snd (forEach f xs s))"
  using assms
proof (induction xs arbitrary: s)
  case Nil
  then show ?case by simp
next
  case (Cons x xs)
  have px: "P (snd (f x s))" using Cons.prems by simp
  show ?case
  proof (cases "f x s")
    case (Pair err s')
    with px have "P s'" by simp
    show ?thesis
    proof (cases err)
      case None
      with Pair have "forEach f (x # xs) s = forEach f xs s'" by simp
      moreover have "P (snd (forEach f xs s'))"
        using Cons.IH [OF \<open>P s'\<close>] Cons.prems(2) by simp
      ultimately show ?thesis by simp
    next
      case (Some e)
      with Pair \<open>P s'\<close> show ?thesis by simp
    qed
  qed
qed

subsection \<open>discoverElements\<close>

lemma discoverElement_registered:
  "elements_has s (snd ie) \<Longrightarrow> discoverElement ie s = (None, s)"
  by (simp add: discoverElement_def)







subsection \<open>handleIntersection\<close>












subsection \<open>What the operations leave alone\<close>

lemma hide_frame [simp]:
  "options (hide e r s) = options s"
  "elements (hide e r s) = elements s"
  "observer (hide e r s) = observer s"
  "timers (hide e r s) = timers s"
  "dispatched (hide e r s) = dispatched s"
  "host (hide e r s) = host s"
  by (simp_all add: hide_def)

lemma reset_frame [simp]:
  "options (reset s) = options s"
  "elements (reset s) = elements s"
  "observer (reset s) = observer s"
  "timers (reset s) = timers s"
  "dispatched (reset s) = dispatched s"
  "host (reset s) = host s"
proof -
  have "options (fold (\<lambda>kv. hide (fst kv) (snd kv)) xs s) = options s \<and>
        elements (fold (\<lambda>kv. hide (fst kv) (snd kv)) xs s) = elements s \<and>
        observer (fold (\<lambda>kv. hide (fst kv) (snd kv)) xs s) = observer s \<and>
        timers (fold (\<lambda>kv. hide (fst kv) (snd kv)) xs s) = timers s \<and>
        dispatched (fold (\<lambda>kv. hide (fst kv) (snd kv)) xs s) = dispatched s \<and>
        host (fold (\<lambda>kv. hide (fst kv) (snd kv)) xs s) = host s" for xs
    by (induction xs arbitrary: s) simp_all
  then show "options (reset s) = options s"
    "elements (reset s) = elements s"
    "observer (reset s) = observer s"
    "timers (reset s) = timers s"
    "dispatched (reset s) = dispatched s"
    "host (reset s) = host s"
    by (simp_all add: reset_def)
qed

lemma reset_counts [simp]:
  "pending (reset s) e = pending s e"
  "notified (reset s) e = notified s e"
  "observed (reset s) e = observed s e"
  by (simp_all add: pending_def notified_def observed_def)

lemma discoverElement_frame:
  "timers (snd (discoverElement ie s)) = timers s \<and>
   dispatched (snd (discoverElement ie s)) = dispatched s \<and>
   options (snd (discoverElement ie s)) = options s"
  by (simp add: discoverElement_def Let_def elements_set_def applyInitialStyles_def
      split: option.splits)

lemma ScrollReveal_fresh:
  "timers (snd (ScrollReveal pg opts)) = [] \<and> dispatched (snd (ScrollReveal pg opts)) = [] \<and>
   options (snd (ScrollReveal pg opts)) = opts"
proof -
  have "timers (snd (forEach discoverElement ies s)) = [] \<and>
        dispatched (snd (forEach discoverElement ies s)) = [] \<and>
        options (snd (forEach discoverElement ies s)) = opts"
    if "timers s = [] \<and> dispatched s = [] \<and> options s = opts" for ies s
    using that
    by (rule forEach_invariant) (simp add: discoverElement_frame)
  then show ?thesis
    by (simp add: ScrollReveal_def init_def discoverElements_def)
qed

subsection \<open>The effects of reveal, hide and reset\<close>

lemma reveal_element_frame [simp]:
  "options (reveal_element e r s) = options s"
  "elements (reveal_element e r s) = elements s"
  "observer (reveal_element e r s) = observer s"
  "host (reveal_element e r s) = host s"
  "timers (reveal_element e r s) = timers s @ [Cleanup e (ed_duration (store s r))]"
  "dispatched (reveal_element e r s) = dispatched s @ [(e, animationType (store s r))]"
  by (simp_all add: reveal_element_def)

lemma reveal_element_store:
  "animation (store (reveal_element e r s) r') = animation (store s r')"
  "revealed (store (reveal_element e r s) r') = (r' = r \<or> revealed (store s r'))"
  by (simp_all add: reveal_element_def)


lemma hide_store:
  "animation (store (hide e r s) r') = animation (store s r')"
  "revealed (store (hide e r s) r') = (r' \<noteq> r \<and> revealed (store s r'))"
  by (simp_all add: hide_def)

lemma hide_style:
  "style (hide e r s) e' =
     (if e' = e then assign (style s e) (initial (animation (store s r))) else style s e')"
  "revealedClass (hide e r s) e' = (e' \<noteq> e \<and> revealedClass s e')"
  by (simp_all add: hide_def)

lemma hide_all_store:
  "animation (store (fold (\<lambda>kv. hide (fst kv) (snd kv)) xs s) r') = animation (store s r')"
  "revealed (store (fold (\<lambda>kv. hide (fst kv) (snd kv)) xs s) r') =
     (r' \<notin> snd ` set xs \<and> revealed (store s r'))"
  "revealedClass (fold (\<lambda>kv. hide (fst kv) (snd kv)) xs s) e' =
     (e' \<notin> fst ` set xs \<and> revealedClass s e')"
  by (induction xs arbitrary: s) (auto simp: hide_store hide_style)



lemma reset_store:
  "animation (store (reset s) r') = animation (store s r')"
  "revealed (store (reset s) r') = (r' \<notin> snd ` set (elements s) \<and> revealed (store s r'))"
  "revealedClass (reset s) e' = (e' \<notin> fst ` set (elements s) \<and> revealedClass s e')"
  by (simp_all add: reset_def hide_all_store)




subsection \<open>Pending reveals and notifications under the policy once\<close>

lemma handleEntry_once_counts:
  assumes "once (options s)"
  shows "pending (snd (handleEntry en s)) e =
           pending s e + (if schedules s en \<and> e = target en then 1 else 0)"
    and "notified (snd (handleEntry en s)) e = notified s e"
    and "observed (snd (handleEntry en s)) e =
           (observed s e \<and> \<not> (schedules s en \<and> e = target en))"
    and "options (snd (handleEntry en s)) = options s"
  using assms
  by (auto simp: handleEntry_def schedules_def Let_def pending_def notified_def observed_def
      unobserve_def split: option.splits)

lemma handleEntry_once_inv:
  assumes "once_inv s" and "observed s (target en)"
  shows "once_inv (snd (handleEntry en s))"
    and "e \<noteq> target en \<Longrightarrow> observed s e \<Longrightarrow> observed (snd (handleEntry en s)) e"
proof -
  from assms(1) have o: "once (options s)" by (simp add: once_inv_def)
  note c = handleEntry_once_counts [OF o, of en]
  have "(observed (snd (handleEntry en s)) x \<longrightarrow>
           pending (snd (handleEntry en s)) x = 0 \<and> notified (snd (handleEntry en s)) x = 0) \<and>
        pending (snd (handleEntry en s)) x + notified (snd (handleEntry en s)) x \<le> 1" for x
  proof -
    from assms(1) have "(observed s x \<longrightarrow> pending s x = 0 \<and> notified s x = 0) \<and>
        pending s x + notified s x \<le> 1" by (simp add: once_inv_def)
    moreover from assms have "pending s (target en) = 0 \<and> notified s (target en) = 0"
      by (simp add: once_inv_def)
    ultimately show ?thesis unfolding c by auto
  qed
  with o show "once_inv (snd (handleEntry en s))" by (simp add: once_inv_def c)
  show "e \<noteq> target en \<Longrightarrow> observed s e \<Longrightarrow> observed (snd (handleEntry en s)) e"
    by (simp add: c)
qed

lemma handle_loop_once_inv:
  assumes "once_inv s" and "\<forall>en\<in>set es. observed s (target en)" and "distinct (map target es)"
  shows "once_inv (snd (forEach handleEntry es s))"
  using assms
proof (induction es arbitrary: s)
  case Nil
  then show ?case by simp
next
  case (Cons en es)
  let ?s1 = "snd (handleEntry en s)"
  have i1: "once_inv ?s1" using Cons.prems by (simp add: handleEntry_once_inv(1))
  have o1: "\<forall>en'\<in>set es. observed ?s1 (target en')"
  proof
    fix en' assume "en' \<in> set es"
    with Cons.prems have "target en' \<in> target ` set es" "target en \<notin> target ` set es"
      "observed s (target en')" by simp_all
    then have "target en' \<noteq> target en" "observed s (target en')" by auto
    then show "observed ?s1 (target en')"
      using Cons.prems by (simp add: handleEntry_once_inv(2))
  qed
  have d1: "distinct (map target es)" using Cons.prems by simp
  show ?case
  proof (cases "handleEntry en s")
    case (Pair err s1)
    then have s1: "?s1 = s1" by simp
    show ?thesis
    proof (cases err)
      case None
      with Pair have "forEach handleEntry (en # es) s = forEach handleEntry es s1" by simp
      with Cons.IH [OF i1 o1 d1] s1 show ?thesis by simp
    next
      case (Some x)
      with Pair i1 show ?thesis by simp
    qed
  qed
qed

lemma filter_remove_nth:
  assumes "i < length xs"
  shows "length (filter P (take i xs @ drop (Suc i) xs)) + (if P (xs ! i) then 1 else 0)
           = length (filter P xs)"
proof -
  have "xs = take i xs @ xs ! i # drop (Suc i) xs" using assms by (rule id_take_nth_drop)
  then have "length (filter P xs) = length (filter P (take i xs @ xs ! i # drop (Suc i) xs))"
    by simp
  then show ?thesis by simp
qed

lemma fire_counts:
  assumes "i < length (timers s)"
  shows "pending (fire i s) e + (if reveals_of e (timers s ! i) then 1 else 0) = pending s e"
    and "notified (fire i s) e = notified s e + (if reveals_of e (timers s ! i) then 1 else 0)"
    and "observed (fire i s) e = observed s e"
    and "options (fire i s) = options s"
proof -
  note f = filter_remove_nth [OF assms, of "reveals_of e"]
  show "pending (fire i s) e + (if reveals_of e (timers s ! i) then 1 else 0) = pending s e"
    using assms f
    by (cases "timers s ! i") (simp_all add: fire_def Let_def pending_def reveal_element_def)
  show "notified (fire i s) e = notified s e + (if reveals_of e (timers s ! i) then 1 else 0)"
    using assms
    by (cases "timers s ! i") (auto simp: fire_def Let_def notified_def reveal_element_def)
  show "observed (fire i s) e = observed s e"
    using assms
    by (cases "timers s ! i") (simp_all add: fire_def Let_def observed_def reveal_element_def)
  show "options (fire i s) = options s"
    using assms
    by (cases "timers s ! i") (simp_all add: fire_def Let_def reveal_element_def)
qed

lemma fire_once_inv:
  assumes "once_inv s" and "i < length (timers s)"
  shows "once_inv (fire i s)"
proof -
  note c = fire_counts [OF assms(2)]
  have "(observed (fire i s) e \<longrightarrow> pending (fire i s) e = 0 \<and> notified (fire i s) e = 0) \<and>
        pending (fire i s) e + notified (fire i s) e \<le> 1" for e
  proof -
    from assms(1) have "(observed s e \<longrightarrow> pending s e = 0 \<and> notified s e = 0) \<and>
        pending s e + notified s e \<le> 1" by (simp add: once_inv_def)
    with c(1) [of e] c(2) [of e] c(3) [of e] show ?thesis
      by (cases "reveals_of e (timers s ! i)") auto
  qed
  with assms(1) c(4) show ?thesis by (simp add: once_inv_def)
qed

lemma exec_once_inv:
  assumes "once_inv s" and "enabled s ev" and "coalesced ev"
  shows "once_inv (exec ev s)"
proof (cases ev)
  case (Deliver es)
  with assms show ?thesis
    by (simp add: handleIntersection_def handle_loop_once_inv list_all_iff)
next
  case (Fire i)
  with assms show ?thesis by (simp add: fire_once_inv)
next
  case Reset
  with assms show ?thesis by (simp add: once_inv_def)
qed

lemma run_once_inv:
  assumes "once_inv s" and "admissible evs s" and "list_all coalesced evs"
  shows "once_inv (run evs s)"
  using assms
proof (induction evs arbitrary: s)
  case Nil
  then show ?case by (simp add: run_def)
next
  case (Cons ev evs)
  from Cons.prems have "once_inv (exec ev s)" by (simp add: exec_once_inv)
  with Cons.IH [of "exec ev s"] Cons.prems show ?case by (simp add: run_def)
qed

lemma ScrollReveal_once_inv: "once opts \<Longrightarrow> once_inv (snd (ScrollReveal pg opts))"
  using ScrollReveal_fresh [of pg opts] by (simp add: once_inv_def pending_def notified_def)

subsection \<open>The registry invariant\<close>

lemma handleEntry_once_frame:
  assumes "once (options s)"
  shows "elements (snd (handleEntry en s)) = elements s"
    and "store (snd (handleEntry en s)) = store s"
    and "style (snd (handleEntry en s)) = style s"
    and "revealedClass (snd (handleEntry en s)) = revealedClass s"
    and "dispatched (snd (handleEntry en s)) = dispatched s"
    and "\<forall>t\<in>set (timers (snd (handleEntry en s))). t \<in> set (timers s) \<or>
           (\<exists>r d. t = Reveal (target en) r d \<and> elements_get s (target en) = Some r)"
  using assms
  by (auto simp: handleEntry_def Let_def split: option.splits)

lemma timer_registered_cong:
  "elements s' = elements s \<Longrightarrow> timer_registered s' t = timer_registered s t"
  by (cases t) simp_all

lemma handleEntry_registry_inv:
  assumes "registry_inv s"
  shows "registry_inv (snd (handleEntry en s))"
proof -
  let ?s' = "snd (handleEntry en s)"
  from assms have o: "once (options s)" by (simp add: registry_inv_def)
  note f = handleEntry_once_frame [OF o, of en]
  note c = handleEntry_once_counts [OF o, of en]
  have t: "timer_registered ?s' t" if "t \<in> set (timers ?s')" for t
  proof -
    from f(6) that have "t \<in> set (timers s) \<or>
        (\<exists>r d. t = Reveal (target en) r d \<and> elements_get s (target en) = Some r)" by blast
    then show ?thesis
    proof
      assume "t \<in> set (timers s)"
      with assms have "timer_registered s t" by (simp add: registry_inv_def)
      then show ?thesis by (simp add: timer_registered_cong [OF f(1)])
    next
      assume "\<exists>r d. t = Reveal (target en) r d \<and> elements_get s (target en) = Some r"
      then obtain r d where "t = Reveal (target en) r d" "map_of (elements s) (target en) = Some r"
        by (auto simp: elements_get_def)
      then show ?thesis by (simp add: f(1) map_of_SomeD)
    qed
  qed
  have e: "animation (store ?s' (snd er)) \<in> snd ` set ANIMATIONS \<and>
        (observed ?s' (fst er) \<longrightarrow> \<not> revealed (store ?s' (snd er)) \<and> pending ?s' (fst er) = 0)"
    if "er \<in> set (elements s)" for er
  proof -
    from assms that have "animation (store s (snd er)) \<in> snd ` set ANIMATIONS \<and>
        (observed s (fst er) \<longrightarrow> \<not> revealed (store s (snd er)) \<and> pending s (fst er) = 0)"
      by (simp add: registry_inv_def)
    then show ?thesis unfolding c f by auto
  qed
  from assms t e show ?thesis
    unfolding registry_inv_def by (simp add: f(1) c(4))
qed

lemma handleIntersection_registry_inv:
  "registry_inv s \<Longrightarrow> registry_inv (snd (handleIntersection es s))"
  unfolding handleIntersection_def
  by (rule forEach_invariant) (simp_all add: handleEntry_registry_inv)

lemma distinct_snd_unique:
  "distinct (map snd xs) \<Longrightarrow> (a, r) \<in> set xs \<Longrightarrow> (b, r) \<in> set xs \<Longrightarrow> a = b"
  by (induction xs) force+

lemma fire_out_of_range: "\<not> i < length (timers s) \<Longrightarrow> fire i s = s"
  by (simp add: fire_def)

lemma fire_frame:
  "elements (fire i s) = elements s"
  "animation (store (fire i s) r') = animation (store s r')"
  by (cases "i < length (timers s)"; cases "timers s ! i";
      simp add: fire_def Let_def reveal_element_store)+

lemma fire_timers:
  assumes "t \<in> set (timers (fire i s))"
  shows "t \<in> set (timers s) \<or> (\<exists>e d. t = Cleanup e d)"
proof (cases "i < length (timers s)")
  case False
  with assms show ?thesis by (simp add: fire_def)
next
  case True
  have "set (take i (timers s) @ drop (Suc i) (timers s)) \<subseteq> set (timers s)"
    using set_take_subset [of i "timers s"] set_drop_subset [of "Suc i" "timers s"] by auto
  with assms True show ?thesis
    by (cases "timers s ! i") (auto simp: fire_def Let_def)
qed

lemma fire_revealed:
  assumes "revealed (store (fire i s) r')" and "\<not> revealed (store s r')"
  shows "i < length (timers s) \<and> (\<exists>e d. timers s ! i = Reveal e r' d)"
proof (cases "i < length (timers s)")
  case False
  with assms show ?thesis by (simp add: fire_def)
next
  case True
  with assms show ?thesis
    by (cases "timers s ! i") (auto simp: fire_def Let_def reveal_element_store)
qed

lemma fire_registry_inv:
  assumes "registry_inv s"
  shows "registry_inv (fire i s)"
proof (cases "i < length (timers s)")
  case False
  with assms show ?thesis by (simp add: fire_out_of_range)
next
  case True
  note c = fire_counts [OF True]
  have t: "timer_registered (fire i s) t" if "t \<in> set (timers (fire i s))" for t
  proof -
    from fire_timers [OF that] show ?thesis
    proof
      assume "t \<in> set (timers s)"
      with assms have "timer_registered s t" by (simp add: registry_inv_def)
      then show ?thesis by (simp add: timer_registered_cong [OF fire_frame(1)])
    next
      assume "\<exists>e d. t = Cleanup e d"
      then show ?thesis by auto
    qed
  qed
  have e: "animation (store (fire i s) (snd er)) \<in> snd ` set ANIMATIONS \<and>
        (observed (fire i s) (fst er) \<longrightarrow>
           \<not> revealed (store (fire i s) (snd er)) \<and> pending (fire i s) (fst er) = 0)"
    if er: "er \<in> set (elements s)" for er
  proof -
    from assms er have a: "animation (store s (snd er)) \<in> snd ` set ANIMATIONS"
      and ob: "observed s (fst er) \<longrightarrow> \<not> revealed (store s (snd er)) \<and> pending s (fst er) = 0"
      by (simp_all add: registry_inv_def)
    have "\<not> revealed (store (fire i s) (snd er)) \<and> pending (fire i s) (fst er) = 0"
      if obs: "observed s (fst er)"
    proof -
      from ob obs have nr: "\<not> revealed (store s (snd er))" and p0: "pending s (fst er) = 0" by simp_all
      from c(1) [of "fst er"] p0 have p': "pending (fire i s) (fst er) = 0"
        and nt: "\<not> reveals_of (fst er) (timers s ! i)" by (auto split: if_splits)
      have "\<not> revealed (store (fire i s) (snd er))"
      proof
        assume "revealed (store (fire i s) (snd er))"
        from fire_revealed [OF this nr] obtain e' d where ti: "timers s ! i = Reveal e' (snd er) d"
          by blast
        with True have "Reveal e' (snd er) d \<in> set (timers s)" by (metis nth_mem)
        with assms have "(e', snd er) \<in> set (elements s)" by (auto simp: registry_inv_def)
        moreover from er have "(fst er, snd er) \<in> set (elements s)" by simp
        moreover from assms have "distinct (map snd (elements s))" by (simp add: registry_inv_def)
        ultimately have "e' = fst er" by (rule distinct_snd_unique [rotated])
        with ti nt show False by simp
      qed
      with p' show ?thesis by simp
    qed
    with a show ?thesis by (simp add: fire_frame c(3))
  qed
  from assms t e show ?thesis
    unfolding registry_inv_def by (simp add: fire_frame(1) c(4))
qed

lemma reset_registry_inv:
  assumes "registry_inv s"
  shows "registry_inv (reset s)"
proof -
  have t: "timer_registered (reset s) t = timer_registered s t" for t
    by (rule timer_registered_cong) simp
  from assms show ?thesis
    unfolding registry_inv_def by (simp add: t reset_store)
qed

lemma exec_registry_inv: "registry_inv s \<Longrightarrow> registry_inv (exec ev s)"
  by (cases ev) (simp_all add: handleIntersection_registry_inv fire_registry_inv reset_registry_inv)



subsection \<open>The registry after construction\<close>

lemma discoverElement_fresh:
  assumes "fresh_registry opts s"
  shows "fresh_registry opts (snd (discoverElement ie s))"
proof (cases "elements_has s (snd ie)")
  case True
  with assms show ?thesis by (simp add: discoverElement_registered)
next
  case False
  define d where "d = store (snd (discoverElement ie s)) (allocated s)"
  have el: "elements (snd (discoverElement ie s)) = elements s @ [(snd ie, allocated s)]"
    and op: "options (snd (discoverElement ie s)) = options s"
    and ti: "timers (snd (discoverElement ie s)) = timers s"
    and al: "allocated (snd (discoverElement ie s)) = Suc (allocated s)"
    and st: "\<And>r. r \<noteq> allocated s \<Longrightarrow> store (snd (discoverElement ie s)) r = store s r"
    and nw: "animation d \<in> snd ` set ANIMATIONS" "\<not> revealed d"
    using False unfolding d_def
    by (simp_all add: discoverElement_def Let_def elements_set_def applyInitialStyles_def
        lookupAnimation_in split: option.splits)
  from assms have old: "\<forall>er\<in>set (elements s). snd er < allocated s"
    by (simp add: fresh_registry_def)
  then have fresh: "allocated s \<notin> snd ` set (elements s)" by auto
  from False have key: "snd ie \<notin> fst ` set (elements s)" by (simp add: elements_has_def)
  have "snd er < Suc (allocated s) \<and>
        animation (store (snd (discoverElement ie s)) (snd er)) \<in> snd ` set ANIMATIONS \<and>
        \<not> revealed (store (snd (discoverElement ie s)) (snd er))"
    if "er \<in> set (elements s @ [(snd ie, allocated s)])" for er
  proof (cases "er \<in> set (elements s)")
    case True
    with assms have "snd er < allocated s" "animation (store s (snd er)) \<in> snd ` set ANIMATIONS"
      "\<not> revealed (store s (snd er))" by (simp_all add: fresh_registry_def)
    then show ?thesis by (simp add: st)
  next
    case False
    with that have "er = (snd ie, allocated s)" by simp
    with nw show ?thesis by (simp add: d_def)
  qed
  with assms fresh key show ?thesis
    unfolding fresh_registry_def by (simp add: el op ti al)
qed

lemma ScrollReveal_fresh_registry: "fresh_registry opts (snd (ScrollReveal pg opts))"
proof -
  have "fresh_registry opts (snd (forEach discoverElement ies s))" if "fresh_registry opts s" for ies s
    using that by (rule forEach_invariant) (rule discoverElement_fresh)
  then show ?thesis
    by (simp add: ScrollReveal_def init_def discoverElements_def fresh_registry_def)
qed

lemma ScrollReveal_registry_inv:
  assumes "once opts"
  shows "registry_inv (snd (ScrollReveal pg opts))"
  using assms ScrollReveal_fresh_registry [of opts pg]
  by (simp add: registry_inv_def fresh_registry_def pending_def)

subsection \<open>Transitions of the flag\<close>

lemma handleIntersection_once_frame:
  assumes "once (options s)"
  shows "store (snd (handleIntersection es s)) = store s"
    and "elements (snd (handleIntersection es s)) = elements s"
    and "dispatched (snd (handleIntersection es s)) = dispatched s"
proof -
  have "once (options (snd (forEach handleEntry es s))) \<and>
        store (snd (forEach handleEntry es s)) = store s \<and>
        elements (snd (forEach handleEntry es s)) = elements s \<and>
        dispatched (snd (forEach handleEntry es s)) = dispatched s"
    by (rule forEach_invariant
        [where P = "\<lambda>s'. once (options s') \<and> store s' = store s \<and> elements s' = elements s \<and>
                       dispatched s' = dispatched s"])
      (simp_all add: assms handleEntry_once_frame handleEntry_once_counts(4))
  then show "store (snd (handleIntersection es s)) = store s"
    and "elements (snd (handleIntersection es s)) = elements s"
    and "dispatched (snd (handleIntersection es s)) = dispatched s"
    by (simp_all add: handleIntersection_def)
qed

lemma exec_transition:
  assumes "registry_inv s"
  shows "notified (exec ev s) e =
           notified s e + (if \<not> is_revealed s e \<and> is_revealed (exec ev s) e then 1 else 0) \<or>
         (is_revealed s e \<and> notified (exec ev s) e = notified s e + 1)"
proof (cases ev)
  case (Deliver es)
  from assms have "once (options s)" by (simp add: registry_inv_def)
  note f = handleIntersection_once_frame [OF this, of es]
  have "is_revealed (snd (handleIntersection es s)) e = is_revealed s e"
    by (simp add: is_revealed_def elements_get_def f cong: option.case_cong)
  with Deliver show ?thesis
    by (simp add: notified_def f)
next
  case Reset
  have "is_revealed (reset s) e \<Longrightarrow> is_revealed s e"
    by (auto simp: is_revealed_def elements_get_def reset_store split: option.splits)
  with Reset show ?thesis by auto
next
  case (Fire i)
  show ?thesis
  proof (cases "i < length (timers s)")
    case False
    with Fire show ?thesis by (simp add: fire_out_of_range)
  next
    case True
    note c = fire_counts [OF True]
    have g: "elements_get (fire i s) e = elements_get s e"
      by (simp add: elements_get_def fire_frame)
    show ?thesis
    proof (cases "reveals_of e (timers s ! i)")
      case rv: True
      then obtain r d where ti: "timers s ! i = Reveal e r d"
        by (cases "timers s ! i") auto
      with True have "Reveal e r d \<in> set (timers s)" by (metis nth_mem)
      with assms have er: "(e, r) \<in> set (elements s)" by (auto simp: registry_inv_def)
      with assms have "elements_get s e = Some r" by (simp add: elements_get_def registry_inv_def)
      moreover have "revealed (store (fire i s) r)"
        using True ti by (simp add: fire_def Let_def reveal_element_store)
      ultimately have "is_revealed (fire i s) e" using g by (simp add: is_revealed_def)
      with c(2) [of e] rv Fire show ?thesis by auto
    next
      case nrv: False
      have "\<not> is_revealed (fire i s) e" if n: "\<not> is_revealed s e"
      proof
        assume a: "is_revealed (fire i s) e"
        then obtain r where gr: "elements_get s e = Some r" and r1: "revealed (store (fire i s) r)"
          using g by (auto simp: is_revealed_def split: option.splits)
        with n have "\<not> revealed (store s r)" by (simp add: is_revealed_def)
        from fire_revealed [OF r1 this] obtain e' d where ti: "timers s ! i = Reveal e' r d" by blast
        with True have "Reveal e' r d \<in> set (timers s)" by (metis nth_mem)
        with assms have e'r: "(e', r) \<in> set (elements s)" by (auto simp: registry_inv_def)
        from gr have er: "(e, r) \<in> set (elements s)" by (simp add: elements_get_def map_of_SomeD)
        from assms have "distinct (map snd (elements s))" by (simp add: registry_inv_def)
        then have "e' = e" using e'r er by (rule distinct_snd_unique)
        with ti nrv show False by simp
      qed
      with c(2) [of e] nrv Fire show ?thesis by auto
    qed
  qed
qed


subsection \<open>At most one notification\<close>




subsection \<open>Hidden for good\<close>








text \<open>
  In a run whose batches report no element twice, an element whose flag is set has had
  its notification, so no reveal of it is pending.
\<close>

lemma exec_revealed_notified:
  assumes "registry_inv s" and "is_revealed s e \<longrightarrow> 1 \<le> notified s e"
  shows "is_revealed (exec ev s) e \<longrightarrow> 1 \<le> notified (exec ev s) e"
  using exec_transition [OF assms(1), of ev e] assms(2) by auto

lemma run_revealed_notified:
  assumes "registry_inv s" and "is_revealed s e \<longrightarrow> 1 \<le> notified s e"
  shows "is_revealed (run evs s) e \<longrightarrow> 1 \<le> notified (run evs s) e"
  using assms
proof (induction evs arbitrary: s)
  case Nil
  then show ?case by (simp add: run_def)
next
  case (Cons ev evs)
  from Cons.prems(1) have a: "registry_inv (exec ev s)" by (rule exec_registry_inv)
  from Cons.prems have b: "is_revealed (exec ev s) e \<longrightarrow> 1 \<le> notified (exec ev s) e"
    by (rule exec_revealed_notified)
  from Cons.IH [OF a b] show ?case by (simp add: run_def)
qed

lemma ScrollReveal_not_revealed: "\<not> is_revealed (snd (ScrollReveal pg opts)) e"
proof
  let ?s = "snd (ScrollReveal pg opts)"
  assume "is_revealed ?s e"
  then obtain r where "map_of (elements ?s) e = Some r" "revealed (store ?s r)"
    by (auto simp: is_revealed_def elements_get_def split: option.splits)
  then have "(e, r) \<in> set (elements ?s)" "revealed (store ?s r)" by (simp_all add: map_of_SomeD)
  moreover have "\<forall>er\<in>set (elements ?s). \<not> revealed (store ?s (snd er))"
    using ScrollReveal_fresh_registry [of opts pg] by (simp add: fresh_registry_def)
  ultimately show False by force
qed

lemma coalesced_no_pending:
  assumes "once opts" and "admissible evs (snd (ScrollReveal pg opts))" and "list_all coalesced evs"
    and "elements_get (run evs (snd (ScrollReveal pg opts))) e = Some r"
    and "revealed (store (run evs (snd (ScrollReveal pg opts))) r)"
  shows "pending (run evs (snd (ScrollReveal pg opts))) e = 0"
proof -
  let ?s0 = "snd (ScrollReveal pg opts)"
  have "registry_inv ?s0" using assms(1) by (rule ScrollReveal_registry_inv)
  from run_revealed_notified [OF this, of e evs] ScrollReveal_not_revealed [of pg opts e]
  have "is_revealed (run evs ?s0) e \<longrightarrow> 1 \<le> notified (run evs ?s0) e" by simp
  moreover from assms(4,5) have "is_revealed (run evs ?s0) e" by (simp add: is_revealed_def)
  ultimately have "1 \<le> notified (run evs ?s0) e" by simp
  moreover have "once_inv (run evs ?s0)"
    using assms(1-3) by (simp add: run_once_inv ScrollReveal_once_inv)
  then have "pending (run evs ?s0) e + notified (run evs ?s0) e \<le> 1" by (simp add: once_inv_def)
  ultimately show ?thesis by simp
qed




end
